theory Spec2Isabelle
  imports Main
begin

text \<open>
  The session and token lifecycle of the CareXpert backend: the auth gate
  \<open>isAuthenticated\<close> (middlewares/auth.middleware.ts), the handlers \<open>login\<close>, \<open>logout\<close>,
  \<open>refreshAccessToken\<close> and the helper \<open>generateToken\<close> (controllers/user.controller.ts),
  and \<open>softDeleteUser\<close> (controllers/admin.controller.ts). The database is a list of
  rows passed in and returned; the clock, the secrets and the bcrypt salt are read from
  an environment record; every \<open>throw\<close> and every early \<open>return res.status(...)\<close> is a
  branch of the model.
\<close>

section \<open>JavaScript values\<close>

text \<open>
  Request bodies and decoded token payloads are untyped in the source (\<open>req: any\<close>,
  \<open>decoded: any\<close>), and the handlers test them with \<open>!x\<close>, \<open>typeof\<close> and \<open>!==\<close>.
  The values that can reach those tests are modelled by \<open>jsval\<close>; numbers are the
  integers, which is what the \<open>tokenVersion\<close> column holds.
\<close>

datatype jsval = JUndefined | JNull | JBool bool | JNum int | JStr string

fun truthy :: "jsval \<Rightarrow> bool" where
  "truthy JUndefined = False"
| "truthy JNull = False"
| "truthy (JBool b) = b"
| "truthy (JNum n) = (n \<noteq> 0)"
| "truthy (JStr s) = (s \<noteq> [])"

section \<open>Token strings: jsonwebtoken and bcrypt\<close>

text \<open>
  The strings that flow between the handlers and the \<open>refreshToken\<close>/\<open>password\<close>
  columns are of three shapes: the compact serialisation of a signed token
  (\<open>jwt.sign\<close>), a bcrypt digest (\<open>bcrypt.hash\<close>), and any other string. They are kept
  symbolic: a signed token records the secret it was signed with, its payload, and its
  issued-at and expiry instants (seconds); a digest records what was hashed and the salt.
  Equality of two such strings (\<open>===\<close> in the source) is equality of the terms.
\<close>

datatype payload = PString string | PObject jsval jsval
  \<comment> \<open>\<open>PObject userId tokenVersion\<close>: the two fields of a decoded object the code reads\<close>

datatype jstring = Str string | Jwt string payload nat nat | Bcrypt jstring string

datatype jwt_error = JsonWebTokenError | TokenExpiredError

definition jwt_sign :: "payload \<Rightarrow> string \<Rightarrow> nat \<Rightarrow> nat \<Rightarrow> jstring" where
  "jwt_sign p secret expiresIn clock = Jwt secret p clock (clock + expiresIn)"

fun jwt_verify :: "jstring \<Rightarrow> string \<Rightarrow> nat \<Rightarrow> jwt_error + payload" where
  "jwt_verify (Jwt key p iat exp) secret clock =
     (if key \<noteq> secret then Inl JsonWebTokenError
      else if exp \<le> clock then Inl TokenExpiredError
      else Inr p)"
| "jwt_verify (Str s) secret clock = Inl JsonWebTokenError"
| "jwt_verify (Bcrypt t s) secret clock = Inl JsonWebTokenError"

definition bcrypt_hash :: "jstring \<Rightarrow> string \<Rightarrow> jstring" where
  "bcrypt_hash t salt = Bcrypt t salt"

text \<open>
  \<open>bcrypt.compare\<close> accepts exactly the string that was hashed; that bcrypt reads only
  the first 72 bytes of its input is not modelled.
\<close>

fun bcrypt_compare :: "jstring \<Rightarrow> jstring \<Rightarrow> bool" where
  "bcrypt_compare t (Bcrypt t' s) = (t' = t)"
| "bcrypt_compare t (Str s) = False"
| "bcrypt_compare t (Jwt k p i e) = False"

section \<open>The user table\<close>

datatype role = PATIENT | DOCTOR | ADMIN

record user =
  user_id :: string
  name :: string
  email :: string
  password :: jstring
  role :: role
  profilePicture :: "string option"
  refreshToken :: "jstring option"
  tokenVersion :: int
  deletedAt :: "nat option"
  isEmailVerified :: bool
  emailVerificationToken :: "string option"
  tokenExpiresAt :: "nat option"
  patient :: "string option"
  doctor :: "string option"

text \<open>
  The table is the list of its rows, in the order the database returns them
  (\<open>findFirst\<close> takes the first match). \<open>id\<close> is the primary key: \<open>wf_store\<close> says so.
\<close>

type_synonym store = "user list"

definition wf_store :: "store \<Rightarrow> bool" where
  "wf_store s = distinct (map user_id s)"

definition findUnique :: "string \<Rightarrow> store \<Rightarrow> user option" where
  "findUnique i s = find (\<lambda>u. user_id u = i) s"

text \<open>
  \<open>prisma.user.update({where: {id}, data})\<close>: throws when no row has the id, otherwise
  rewrites the row and returns it.
\<close>

definition update_where_id :: "string \<Rightarrow> (user \<Rightarrow> user) \<Rightarrow> store \<Rightarrow> (store \<times> user) option" where
  "update_where_id i f s =
     (case findUnique i s of
        None \<Rightarrow> None
      | Some u \<Rightarrow> Some (map (\<lambda>r. if user_id r = i then f r else r) s, f u))"

definition INT_MAX :: int where
  "INT_MAX = 2147483647"

text \<open>
  \<open>data: {tokenVersion: {increment: 1}}\<close> on a 32-bit integer column: the database
  refuses the update (the call throws) when the sum leaves the column's range.
\<close>

definition increment_tokenVersion :: "string \<Rightarrow> (user \<Rightarrow> user) \<Rightarrow> store \<Rightarrow> (store \<times> user) option" where
  "increment_tokenVersion i g s =
     (case findUnique i s of
        None \<Rightarrow> None
      | Some u \<Rightarrow>
          if INT_MAX < tokenVersion u + 1 then None
          else update_where_id i (\<lambda>r. g (r\<lparr>tokenVersion := tokenVersion r + 1\<rparr>)) s)"

section \<open>Configuration and clock\<close>

record env =
  now :: nat
  ACCESS_TOKEN_SECRET :: string
  REFRESH_TOKEN_SECRET :: string
  ACCESS_TOKEN_EXPIRY :: nat
  REFRESH_TOKEN_EXPIRY :: nat
  salt :: string

text \<open>
  Modelled from the spec: \<open>generateAccessToken\<close> and \<open>generateRefreshToken\<close> of
  \<open>utils/jwt\<close>, which the source imports and calls but which is not among the source
  files. TokenCodec.mint: "produces a signed token embedding subjectId, tokenVersion,
  an issued-at and expiry instant, and a kind discriminator (access vs refresh)"; the
  kind is the secret, as the two \<open>jwt.verify\<close> calls of the source have it.
\<close>

definition generateAccessToken :: "env \<Rightarrow> string \<Rightarrow> int \<Rightarrow> jstring" where
  "generateAccessToken e userId v =
     jwt_sign (PObject (JStr userId) (JNum v)) (ACCESS_TOKEN_SECRET e) (ACCESS_TOKEN_EXPIRY e) (now e)"

definition generateRefreshToken :: "env \<Rightarrow> string \<Rightarrow> int \<Rightarrow> jstring" where
  "generateRefreshToken e userId v =
     jwt_sign (PObject (JStr userId) (JNum v)) (REFRESH_TOKEN_SECRET e) (REFRESH_TOKEN_EXPIRY e) (now e)"

section \<open>The auth gate: \<open>isAuthenticated\<close>\<close>

datatype api_error = ApiError nat string

record identity =
  ident_id :: string
  ident_name :: string
  ident_email :: string
  ident_role :: role
  ident_tokenVersion :: int
  ident_patient :: "string option"
  ident_doctor :: "string option"

datatype gate = Next identity | Respond nat api_error

record auth_request =
  cookie_accessToken :: "jstring option"
  bearer :: "jstring option"
  \<comment> \<open>\<open>bearer\<close> is \<open>req.header("Authorization")?.replace("Bearer ", "")\<close>\<close>

definition falsy :: "jstring option \<Rightarrow> bool" where
  "falsy t = (t = None \<or> t = Some (Str []))"

definition presented :: "auth_request \<Rightarrow> jstring option" where
  "presented req = (if falsy (cookie_accessToken req) then bearer req else cookie_accessToken req)"

datatype prisma_error = PrismaClientValidationError

text \<open>
  \<open>prisma.user.findFirst({where: {id: x, deletedAt: null}})\<close> with \<open>x\<close> taken from the
  decoded payload: a string filters on the id, \<open>undefined\<close> drops the condition, and a
  value of any other type is refused by the client (the call throws). Without a filter
  on the id the query has no ordering, and the row it returns is the first in whatever
  order the database delivers; the list order stands for that order.
\<close>

fun findFirst_active :: "jsval \<Rightarrow> store \<Rightarrow> prisma_error + user option" where
  "findFirst_active (JStr i) s = Inr (find (\<lambda>u. user_id u = i \<and> deletedAt u = None) s)"
| "findFirst_active JUndefined s = Inr (find (\<lambda>u. deletedAt u = None) s)"
| "findFirst_active JNull s = Inl PrismaClientValidationError"
| "findFirst_active (JBool b) s = Inl PrismaClientValidationError"
| "findFirst_active (JNum n) s = Inl PrismaClientValidationError"

definition req_user :: "user \<Rightarrow> identity" where
  "req_user u = \<lparr>ident_id = user_id u, ident_name = name u, ident_email = email u,
                 ident_role = role u, ident_tokenVersion = tokenVersion u,
                 ident_patient = patient u, ident_doctor = doctor u\<rparr>"

definition isAuthenticated :: "env \<Rightarrow> store \<Rightarrow> auth_request \<Rightarrow> gate" where
  "isAuthenticated e s req =
     (case presented req of
        None \<Rightarrow> Respond 401 (ApiError 401 ''Unauthorized request'')
      | Some token \<Rightarrow>
          if token = Str [] then Respond 401 (ApiError 401 ''Unauthorized request'')
          else (case jwt_verify token (ACCESS_TOKEN_SECRET e) (now e) of
            Inl err \<Rightarrow> Respond 500 (ApiError 500 ''error in authenticated'')
          | Inr (PString str) \<Rightarrow> Respond 401 (ApiError 401 ''Invalid token'')
          | Inr (PObject uid tv) \<Rightarrow>
              (case findFirst_active uid s of
                 Inl err \<Rightarrow> Respond 500 (ApiError 500 ''error in authenticated'')
               | Inr None \<Rightarrow>
                   Respond 401 (ApiError 401 ''Account not found or has been deactivated'')
               | Inr (Some u) \<Rightarrow>
                   if tv \<noteq> JUndefined \<and> tv \<noteq> JNum (tokenVersion u)
                   then Respond 401 (ApiError 401 ''Token has been invalidated, please login again'')
                   else Next (req_user u))))"

section \<open>Replies of the handlers\<close>

datatype response_data =
    LoginData string string string role "string option" jstring
  | TokenPair jstring jstring
  | DeletedUser string string string role "nat option"
  | Message string

datatype api_body = Failure api_error | ApiResponse nat response_data "string option"

datatype cookie = Untouched | SetCookie jstring | ClearCookie

record reply =
  status :: nat
  body :: api_body
  accessToken_cookie :: cookie
  refreshToken_cookie :: cookie

definition fail :: "nat \<Rightarrow> nat \<Rightarrow> string \<Rightarrow> reply" where
  "fail st code msg = \<lparr>status = st, body = Failure (ApiError code msg),
                       accessToken_cookie = Untouched, refreshToken_cookie = Untouched\<rparr>"

section \<open>Issuing a pair: \<open>generateToken\<close>\<close>

definition generateToken :: "env \<Rightarrow> string \<Rightarrow> store \<Rightarrow> (api_error + jstring \<times> jstring) \<times> store" where
  "generateToken e userId s =
     (case increment_tokenVersion userId (\<lambda>r. r) s of
        None \<Rightarrow> (Inl (ApiError 500 ''Error in generating token''), s)
      | Some (s1, u) \<Rightarrow>
          (let accessTok = generateAccessToken e userId (tokenVersion u);
               refreshTok = generateRefreshToken e userId (tokenVersion u);
               hashedRefresh = bcrypt_hash refreshTok (salt e)
           in (case update_where_id userId (\<lambda>r. r\<lparr>refreshToken := Some hashedRefresh\<rparr>) s1 of
                 None \<Rightarrow> (Inl (ApiError 500 ''Error in generating token''), s1)
               | Some (s2, u2) \<Rightarrow> (Inr (accessTok, refreshTok), s2))))"

section \<open>\<open>login\<close>\<close>

record login_body =
  req_data :: jsval
  req_password :: jsval

text \<open>
  \<open>field.trim() === ""\<close>: every character is white space. Only the six ASCII
  white-space characters are recognised here; \<open>trim\<close> also strips the Unicode ones.
\<close>

definition is_blank :: "string \<Rightarrow> bool" where
  "is_blank str = list_all (\<lambda>c. (of_char c :: nat) \<in> {9, 10, 11, 12, 13, 32}) str"

text \<open>
  \<open>mode: "insensitive"\<close>: the two strings are compared with their ASCII letters
  lowered. The database's pattern characters \<open>%\<close> and \<open>_\<close> in \<open>data\<close> are taken
  literally here.
\<close>

definition lower :: "string \<Rightarrow> string" where
  "lower str = map (\<lambda>c. if (65::nat) \<le> of_char c \<and> of_char c \<le> (90::nat)
                         then char_of (of_char c + (32::nat)) else c) str"

definition login :: "env \<Rightarrow> login_body \<Rightarrow> store \<Rightarrow> reply \<times> store" where
  "login e b s =
     (if \<not> truthy (req_data b) then (fail 200 400 ''username or email is required'', s)
      else (case req_password b of
        JStr pw \<Rightarrow>
          if is_blank pw then (fail 200 400 ''All field required'', s)
          else (case req_data b of
            JStr d \<Rightarrow>
              if is_blank d then (fail 200 400 ''All field required'', s)
              else (case find (\<lambda>u. lower (email u) = lower d \<or> lower (name u) = lower d) s of
                None \<Rightarrow> (fail 401 401 ''Invalid username or password'', s)
              | Some u \<Rightarrow>
                  if deletedAt u \<noteq> None
                  then (fail 403 403 ''This account has been deactivated. Please contact support.'', s)
                  else if \<not> bcrypt_compare (Str pw) (password u)
                  then (fail 401 401 ''Invalid username or password'', s)
                  else (case generateToken e (user_id u) s of
                    (Inl err, s') \<Rightarrow> (fail 500 500 ''Internal server error'', s')
                  | (Inr (accessTok, refreshTok), s') \<Rightarrow>
                      (\<lparr>status = 200,
                        body = ApiResponse 200
                                 (LoginData (user_id u) (name u) (email u) (role u)
                                    (profilePicture u) accessTok)
                                 (Some ''Login successfully''),
                        accessToken_cookie = SetCookie accessTok,
                        refreshToken_cookie = SetCookie refreshTok\<rparr>, s')))
          | _ \<Rightarrow> (fail 500 500 ''Internal server error'', s))
      | _ \<Rightarrow> (fail 500 500 ''Internal server error'', s)))"

section \<open>\<open>logout\<close>\<close>

definition logout :: "identity option \<Rightarrow> store \<Rightarrow> reply \<times> store" where
  "logout ru s =
     (case ru of
        None \<Rightarrow> (fail 500 500 ''internal server error'', s)
      | Some idn \<Rightarrow>
          (case increment_tokenVersion (ident_id idn) (\<lambda>r. r\<lparr>refreshToken := Some (Str [])\<rparr>) s of
             None \<Rightarrow> (fail 500 500 ''internal server error'', s)
           | Some (s', u) \<Rightarrow>
               (\<lparr>status = 200, body = ApiResponse 200 (Message ''Logout successfully'') None,
                 accessToken_cookie = ClearCookie, refreshToken_cookie = ClearCookie\<rparr>, s')))"

section \<open>\<open>refreshAccessToken\<close>\<close>

record refresh_request =
  cookie_refreshToken :: "jstring option"
  body_refreshToken :: "jstring option"

definition incoming :: "refresh_request \<Rightarrow> jstring option" where
  "incoming req = (if falsy (cookie_refreshToken req) then body_refreshToken req
                   else cookie_refreshToken req)"

definition refreshAccessToken :: "env \<Rightarrow> refresh_request \<Rightarrow> store \<Rightarrow> reply \<times> store" where
  "refreshAccessToken e req s =
     (case incoming req of
        None \<Rightarrow> (fail 401 401 ''Refresh token is required'', s)
      | Some incomingRefreshToken \<Rightarrow>
          if incomingRefreshToken = Str [] then (fail 401 401 ''Refresh token is required'', s)
          else (case jwt_verify incomingRefreshToken (REFRESH_TOKEN_SECRET e) (now e) of
            Inl err \<Rightarrow> (fail 401 401 ''Invalid or expired refresh token'', s)
          | Inr (PObject (JStr uid) (JNum v)) \<Rightarrow>
              (case findUnique uid s of
                 None \<Rightarrow> (fail 401 401 ''User not found'', s)
               | Some u \<Rightarrow>
                   if refreshToken u \<noteq> Some incomingRefreshToken
                   then (fail 401 401 ''Refresh token has been revoked'', s)
                   else if v \<noteq> tokenVersion u
                   then (fail 401 401 ''Token version mismatch, please login again'', s)
                   else (case generateToken e (user_id u) s of
                     (Inl err, s') \<Rightarrow> (fail 500 500 ''Internal server error'', s')
                   | (Inr (accessTok, refreshTok), s') \<Rightarrow>
                       (\<lparr>status = 200,
                         body = ApiResponse 200 (TokenPair accessTok refreshTok)
                                  (Some ''Token refreshed successfully''),
                         accessToken_cookie = SetCookie accessTok,
                         refreshToken_cookie = SetCookie refreshTok\<rparr>, s')))
          | Inr other \<Rightarrow> (fail 401 401 ''Invalid token payload'', s)))"

section \<open>\<open>softDeleteUser\<close>\<close>

text \<open>
  \<open>isValidUUID\<close> of \<open>utils/helper\<close> is not among the source files: it is a parameter.
  \<open>clock\<close> is \<open>new Date()\<close>.
\<close>

definition softDeleteUser ::
  "(string \<Rightarrow> bool) \<Rightarrow> nat \<Rightarrow> string \<Rightarrow> identity option \<Rightarrow> store \<Rightarrow> reply \<times> store" where
  "softDeleteUser isValidUUID clock userId admin s =
     (if userId = [] \<or> \<not> isValidUUID userId then (fail 400 400 ''Valid user ID is required'', s)
      else if Some userId = map_option ident_id admin
      then (fail 400 400 ''Cannot delete your own account'', s)
      else (case findUnique userId s of
        None \<Rightarrow> (fail 404 404 ''User not found'', s)
      | Some u \<Rightarrow>
          if deletedAt u \<noteq> None then (fail 400 400 ''User is already deleted'', s)
          else (case update_where_id userId (\<lambda>r. r\<lparr>deletedAt := Some clock\<rparr>) s of
            None \<Rightarrow> (fail 500 500 ''Failed to delete user'', s)
          | Some (s', d) \<Rightarrow>
              (\<lparr>status = 200,
                body = ApiResponse 200
                         (DeletedUser (user_id d) (name d) (email d) (role d) (deletedAt d))
                         (Some ''User soft deleted successfully''),
                accessToken_cookie = Untouched, refreshToken_cookie = Untouched\<rparr>, s'))))"

section \<open>Email verification tokens\<close>

datatype verify_reject = NotFound | Mismatch | Expired

datatype verify_result = Verified | Reject verify_reject

text \<open>
  Modelled from the spec: \<open>VerificationTokenManager.consume\<close> (the \<open>verifyEmail\<close> handler
  that the repository's notes describe is not among the source files; only
  \<open>generateVerificationToken\<close> and the mail senders are). "fails with NotFound if subject
  absent, Mismatch if presented token differs from the stored one, Expired if
  now > tokenExpiresAt; on success atomically clears the stored token/expiry and sets
  isEmailVerified = true."
\<close>

definition consume :: "string \<Rightarrow> string \<Rightarrow> nat \<Rightarrow> store \<Rightarrow> verify_result \<times> store" where
  "consume subjectId presentedToken clock s =
     (case findUnique subjectId s of
        None \<Rightarrow> (Reject NotFound, s)
      | Some u \<Rightarrow>
          if emailVerificationToken u \<noteq> Some presentedToken then (Reject Mismatch, s)
          else if (case tokenExpiresAt u of None \<Rightarrow> False | Some t \<Rightarrow> t < clock)
          then (Reject Expired, s)
          else (case update_where_id subjectId
                       (\<lambda>r. r\<lparr>emailVerificationToken := None, tokenExpiresAt := None,
                               isEmailVerified := True\<rparr>) s of
                  None \<Rightarrow> (Reject NotFound, s)
                | Some (s', v) \<Rightarrow> (Verified, s')))"

section \<open>The session core as a transition system\<close>

datatype session_op =
    Login env login_body
  | IssuePair env string
  | Refresh env refresh_request
  | Logout "identity option"

fun session_step :: "store \<Rightarrow> session_op \<Rightarrow> store" where
  "session_step s (Login e b) = snd (login e b s)"
| "session_step s (IssuePair e i) = snd (generateToken e i s)"
| "session_step s (Refresh e req) = snd (refreshAccessToken e req s)"
| "session_step s (Logout ru) = snd (logout ru s)"

definition run_session :: "store \<Rightarrow> session_op list \<Rightarrow> store" where
  "run_session s ops = foldl session_step s ops"

text \<open>Row by row, the same subject and a counter that has not gone down.\<close>

definition versions_grow :: "store \<Rightarrow> store \<Rightarrow> bool" where
  "versions_grow s s' =
     list_all2 (\<lambda>u u'. user_id u' = user_id u \<and> tokenVersion u \<le> tokenVersion u') s s'"

section \<open>The rows that the handlers write\<close>

text \<open>
  What \<open>generateToken\<close> leaves in the row of subject \<open>i\<close> when it mints at version \<open>v\<close>,
  and what \<open>logout\<close> leaves there.
\<close>

definition rotated :: "env \<Rightarrow> string \<Rightarrow> int \<Rightarrow> user \<Rightarrow> user" where
  "rotated e i v r =
     (if user_id r = i
      then r\<lparr>tokenVersion := tokenVersion r + 1,
             refreshToken := Some (bcrypt_hash (generateRefreshToken e i v) (salt e))\<rparr>
      else r)"

definition logged_out :: "string \<Rightarrow> user \<Rightarrow> user" where
  "logged_out i r =
     (if user_id r = i
      then r\<lparr>tokenVersion := tokenVersion r + 1, refreshToken := Some (Str [])\<rparr>
      else r)"

text \<open>
  The \<open>refreshToken\<close> column is null after signup, a bcrypt digest after
  \<open>generateToken\<close> and the empty string after \<open>logout\<close>: it never holds a signed
  token as such.
\<close>

definition holds_no_token :: "user \<Rightarrow> bool" where
  "holds_no_token u = (case refreshToken u of Some (Jwt k p i x) \<Rightarrow> False | _ \<Rightarrow> True)"

section \<open>A sample table\<close>

definition alice :: user where
  "alice = \<lparr>user_id = ''u1'', name = ''alice'', email = ''alice@example.com'',
     password = Bcrypt (Str ''Secret#1'') ''s0'', role = PATIENT, profilePicture = None,
     refreshToken = None, tokenVersion = 0, deletedAt = None, isEmailVerified = True,
     emailVerificationToken = None, tokenExpiresAt = None,
     patient = Some ''p1'', doctor = None\<rparr>"

definition bob :: user where
  "bob = \<lparr>user_id = ''u2'', name = ''bob'', email = ''bob@example.com'',
     password = Bcrypt (Str ''Hunter#2'') ''s9'', role = DOCTOR, profilePicture = None,
     refreshToken = None, tokenVersion = 4, deletedAt = Some 50, isEmailVerified = True,
     emailVerificationToken = None, tokenExpiresAt = None,
     patient = None, doctor = Some ''d7''\<rparr>"

definition carol :: user where
  "carol = \<lparr>user_id = ''u3'', name = ''carol'', email = ''carol@example.com'',
     password = Bcrypt (Str ''Pass#3'') ''s4'', role = PATIENT, profilePicture = None,
     refreshToken = None, tokenVersion = 0, deletedAt = None, isEmailVerified = False,
     emailVerificationToken = Some ''k3x9'', tokenExpiresAt = Some 86500,
     patient = Some ''p3'', doctor = None\<rparr>"

definition env0 :: env where
  "env0 = \<lparr>now = 100, ACCESS_TOKEN_SECRET = ''A'', REFRESH_TOKEN_SECRET = ''R'',
     ACCESS_TOKEN_EXPIRY = 900, REFRESH_TOKEN_EXPIRY = 604800, salt = ''s1''\<rparr>"

definition versionless :: jstring where
  "versionless = Jwt ''A'' (PObject (JStr ''u1'') JUndefined) 10 5000"

definition bearer_request :: "jstring \<Rightarrow> auth_request" where
  "bearer_request t = \<lparr>cookie_accessToken = None, bearer = Some t\<rparr>"

definition expired_token :: jstring where
  "expired_token = Jwt ''A'' (PObject (JStr ''u1'') (JNum 0)) 10 60"

definition bob_token :: jstring where
  "bob_token = Jwt ''A'' (PObject (JStr ''u2'') (JNum 4)) 10 5000"

definition later :: env where
  "later = env0\<lparr>now := 400\<rparr>"

definition cookie_refresh :: "jstring \<Rightarrow> refresh_request" where
  "cookie_refresh t = \<lparr>cookie_refreshToken = Some t, body_refreshToken = None\<rparr>"

definition alice_login :: login_body where
  "alice_login = \<lparr>req_data = JStr ''Alice@Example.com'', req_password = JStr ''Secret#1''\<rparr>"

definition carol_login :: login_body where
  "carol_login = \<lparr>req_data = JStr ''carol'', req_password = JStr ''Pass#3''\<rparr>"

lemmas store_defs = findUnique_def update_where_id_def increment_tokenVersion_def INT_MAX_def

section \<open>Lookups and updates of the table\<close>

lemma find_map_row: "find P (map g s) = map_option g (find (\<lambda>r. P (g r)) s)"
  by (induction s) simp_all

lemma findUnique_Some_id: "findUnique i s = Some u \<Longrightarrow> user_id u = i"
  by (auto simp: findUnique_def find_Some_iff)

lemma findUnique_rewrite:
  assumes "\<And>r. user_id (f r) = user_id r"
  shows "findUnique j (map (\<lambda>r. if user_id r = i then f r else r) s)
           = map_option (\<lambda>r. if user_id r = i then f r else r) (findUnique j s)"
proof -
  have "(\<lambda>r. user_id (if user_id r = i then f r else r) = j) = (\<lambda>r. user_id r = j)"
    using assms by (auto simp: fun_eq_iff)
  then show ?thesis by (simp add: findUnique_def find_map_row)
qed

lemma update_where_id_found:
  "findUnique i s = Some u \<Longrightarrow>
     update_where_id i f s = Some (map (\<lambda>r. if user_id r = i then f r else r) s, f u)"
  by (simp add: update_where_id_def)

lemma increment_tokenVersion_found:
  "findUnique i s = Some u \<Longrightarrow> tokenVersion u + 1 \<le> INT_MAX \<Longrightarrow>
     increment_tokenVersion i g s =
       Some (map (\<lambda>r. if user_id r = i then g (r\<lparr>tokenVersion := tokenVersion r + 1\<rparr>) else r) s,
             g (u\<lparr>tokenVersion := tokenVersion u + 1\<rparr>))"
  by (simp add: increment_tokenVersion_def update_where_id_def)

lemma increment_tokenVersion_None:
  "increment_tokenVersion i g s = None \<longleftrightarrow>
     (case findUnique i s of None \<Rightarrow> True | Some u \<Rightarrow> INT_MAX < tokenVersion u + 1)"
  by (simp add: increment_tokenVersion_def update_where_id_def split: option.splits)

section \<open>What \<open>generateToken\<close> returns and writes\<close>

lemma generateToken_found:
  assumes "findUnique i s = Some u" "tokenVersion u + 1 \<le> INT_MAX"
  shows "generateToken e i s =
           (Inr (generateAccessToken e i (tokenVersion u + 1),
                 generateRefreshToken e i (tokenVersion u + 1)),
            map (rotated e i (tokenVersion u + 1)) s)"
proof -
  let ?s1 = "map (\<lambda>r. if user_id r = i then r\<lparr>tokenVersion := tokenVersion r + 1\<rparr> else r) s"
  let ?h = "Some (bcrypt_hash (generateRefreshToken e i (tokenVersion u + 1)) (salt e))"
  have inc: "increment_tokenVersion i (\<lambda>r. r) s = Some (?s1, u\<lparr>tokenVersion := tokenVersion u + 1\<rparr>)"
    using increment_tokenVersion_found [OF assms, of "\<lambda>r. r"] by simp
  have "findUnique i ?s1 =
          map_option (\<lambda>r. if user_id r = i then r\<lparr>tokenVersion := tokenVersion r + 1\<rparr> else r)
            (findUnique i s)"
    by (rule findUnique_rewrite) simp
  then have "findUnique i ?s1 = Some (u\<lparr>tokenVersion := tokenVersion u + 1\<rparr>)"
    using assms(1) findUnique_Some_id [OF assms(1)] by simp
  from update_where_id_found [OF this]
  have upd: "update_where_id i (\<lambda>r. r\<lparr>refreshToken := ?h\<rparr>) ?s1
      = Some (map (rotated e i (tokenVersion u + 1)) s,
              u\<lparr>tokenVersion := tokenVersion u + 1, refreshToken := ?h\<rparr>)"
    by (simp add: rotated_def comp_def cong: if_cong)
  show ?thesis
    unfolding generateToken_def by (simp add: inc upd Let_def)
qed

lemma generateToken_refused:
  assumes "case findUnique i s of None \<Rightarrow> True | Some u \<Rightarrow> INT_MAX < tokenVersion u + 1"
  shows "generateToken e i s = (Inl (ApiError 500 ''Error in generating token''), s)"
proof -
  have "increment_tokenVersion i (\<lambda>r. r) s = None"
    using assms by (simp add: increment_tokenVersion_None)
  then show ?thesis by (simp add: generateToken_def)
qed

lemma generateToken_Inr:
  "generateToken e i s = (Inr (a, r), s') \<longleftrightarrow>
     (\<exists>u. findUnique i s = Some u \<and> tokenVersion u + 1 \<le> INT_MAX
        \<and> a = generateAccessToken e i (tokenVersion u + 1)
        \<and> r = generateRefreshToken e i (tokenVersion u + 1)
        \<and> s' = map (rotated e i (tokenVersion u + 1)) s)"
proof (cases "findUnique i s")
  case None
  then show ?thesis using generateToken_refused [of i s e] by simp
next
  case (Some u)
  show ?thesis
  proof (cases "tokenVersion u + 1 \<le> INT_MAX")
    case True
    then show ?thesis using generateToken_found [OF Some True, of e] Some by auto
  next
    case False
    then show ?thesis using generateToken_refused [of i s e] Some by simp
  qed
qed

section \<open>The gate on a token that verifies\<close>

lemma jwt_verify_Inr:
  "jwt_verify t k c = Inr p \<longleftrightarrow> (\<exists>iat exp. t = Jwt k p iat exp \<and> c < exp)"
  by (cases t) auto

lemma logout_done:
  assumes "findUnique (ident_id idn) s = Some u" "tokenVersion u + 1 \<le> INT_MAX"
  shows "logout (Some idn) s =
     (\<lparr>status = 200, body = ApiResponse 200 (Message ''Logout successfully'') None,
       accessToken_cookie = ClearCookie, refreshToken_cookie = ClearCookie\<rparr>,
      map (logged_out (ident_id idn)) s)"
  unfolding logout_def
  by (simp add: increment_tokenVersion_found [OF assms] logged_out_def cong: if_cong)

lemma logout_refused:
  assumes "case findUnique (ident_id idn) s of None \<Rightarrow> True | Some u \<Rightarrow> INT_MAX < tokenVersion u + 1"
  shows "logout (Some idn) s = (fail 500 500 ''internal server error'', s)"
proof -
  have "increment_tokenVersion (ident_id idn) (\<lambda>r. r\<lparr>refreshToken := Some (Str [])\<rparr>) s = None"
    using assms by (simp add: increment_tokenVersion_None)
  then show ?thesis by (simp add: logout_def)
qed

lemma logout_200:
  "logout (Some idn) s = (r, s') \<and> status r = 200 \<longleftrightarrow>
     (\<exists>u. findUnique (ident_id idn) s = Some u \<and> tokenVersion u + 1 \<le> INT_MAX
        \<and> r = \<lparr>status = 200, body = ApiResponse 200 (Message ''Logout successfully'') None,
       accessToken_cookie = ClearCookie, refreshToken_cookie = ClearCookie\<rparr>
        \<and> s' = map (logged_out (ident_id idn)) s)"
proof (cases "findUnique (ident_id idn) s")
  case None
  then show ?thesis using logout_refused [of idn s] by (auto simp: fail_def)
next
  case (Some u)
  show ?thesis
  proof (cases "tokenVersion u + 1 \<le> INT_MAX")
    case True
    then show ?thesis using logout_done [OF Some True] Some by auto
  next
    case False
    then show ?thesis using logout_refused [of idn s] Some by (auto simp: fail_def)
  qed
qed

lemma find_active_map:
  assumes "\<And>r. user_id (g r) = user_id r" "\<And>r. deletedAt (g r) = deletedAt r"
  shows "find (\<lambda>u. user_id u = j \<and> deletedAt u = None) (map g s)
           = map_option g (find (\<lambda>u. user_id u = j \<and> deletedAt u = None) s)"
  by (simp add: find_map_row assms)

lemma rotated_keeps [simp]:
  "user_id (rotated e i v r) = user_id r" "deletedAt (rotated e i v r) = deletedAt r"
  by (simp_all add: rotated_def)

lemma findUnique_rotated:
  "findUnique j (map (rotated e i v) s) = map_option (rotated e i v) (findUnique j s)"
  by (simp add: findUnique_def find_map_row)

lemma logged_out_keeps [simp]:
  "user_id (logged_out i r) = user_id r" "deletedAt (logged_out i r) = deletedAt r"
  by (simp_all add: logged_out_def)

lemma isAuthenticated_verified:
  assumes "presented req = Some token"
      and "jwt_verify token (ACCESS_TOKEN_SECRET e) (now e) = Inr (PObject (JStr uid) tv)"
  shows "isAuthenticated e s req =
     (case find (\<lambda>u. user_id u = uid \<and> deletedAt u = None) s of
        None \<Rightarrow> Respond 401 (ApiError 401 ''Account not found or has been deactivated'')
      | Some u \<Rightarrow>
          if tv \<noteq> JUndefined \<and> tv \<noteq> JNum (tokenVersion u)
          then Respond 401 (ApiError 401 ''Token has been invalidated, please login again'')
          else Next (req_user u))"
proof -
  have "token \<noteq> Str []" using assms(2) by auto
  then show ?thesis
    unfolding isAuthenticated_def by (simp add: assms split: option.splits)
qed

section \<open>Rows found by the gate\<close>

lemma findUnique_active:
  "findUnique j s = Some u \<Longrightarrow> deletedAt u = None \<Longrightarrow>
     find (\<lambda>x. user_id x = j \<and> deletedAt x = None) s = Some u"
  by (induction s) (auto simp: findUnique_def split: if_splits)

lemma wf_findUnique_mem:
  "wf_store s \<Longrightarrow> findUnique j s = Some u \<Longrightarrow> x \<in> set s \<Longrightarrow> user_id x = j \<Longrightarrow> x = u"
  by (induction s) (auto simp: wf_store_def findUnique_def split: if_splits)

lemma wf_find_active:
  assumes "wf_store s" "findUnique j s = Some u"
  shows "find (\<lambda>x. user_id x = j \<and> deletedAt x = None) s
           = (if deletedAt u = None then Some u else None)"
proof (cases "deletedAt u = None")
  case True
  then show ?thesis using findUnique_active [OF assms(2)] by simp
next
  case False
  have "\<not> (\<exists>x. x \<in> set s \<and> (user_id x = j \<and> deletedAt x = None))"
  proof
    assume "\<exists>x. x \<in> set s \<and> (user_id x = j \<and> deletedAt x = None)"
    then obtain x where x: "x \<in> set s" "user_id x = j" "deletedAt x = None" by auto
    from wf_findUnique_mem [OF assms x(1,2)] have "x = u" .
    with x(3) False show False by simp
  qed
  then have "find (\<lambda>x. user_id x = j \<and> deletedAt x = None) s = None"
    unfolding find_None_iff .
  then show ?thesis using False by simp
qed

lemma access_token_verifies:
  assumes "ACCESS_TOKEN_SECRET e' = ACCESS_TOKEN_SECRET e" "now e' < now e + ACCESS_TOKEN_EXPIRY e"
  shows "jwt_verify (generateAccessToken e uid v) (ACCESS_TOKEN_SECRET e') (now e')
           = Inr (PObject (JStr uid) (JNum v))"
  using assms by (simp add: generateAccessToken_def jwt_sign_def)

lemma isAuthenticated_decoded:
  assumes "presented req = Some token"
      and "jwt_verify token (ACCESS_TOKEN_SECRET e) (now e) = Inr (PObject uid tv)"
  shows "isAuthenticated e s req =
     (case findFirst_active uid s of
        Inl err \<Rightarrow> Respond 500 (ApiError 500 ''error in authenticated'')
      | Inr None \<Rightarrow> Respond 401 (ApiError 401 ''Account not found or has been deactivated'')
      | Inr (Some u) \<Rightarrow>
          if tv \<noteq> JUndefined \<and> tv \<noteq> JNum (tokenVersion u)
          then Respond 401 (ApiError 401 ''Token has been invalidated, please login again'')
          else Next (req_user u))"
proof -
  have "token \<noteq> Str []" using assms(2) by auto
  then show ?thesis
    unfolding isAuthenticated_def by (simp add: assms)
qed

lemma find_SomeD: "find P s = Some x \<Longrightarrow> x \<in> set s \<and> P x"
  by (induction s) (auto split: if_splits)

lemma findFirst_active_Some:
  "findFirst_active uid s = Inr (Some x) \<Longrightarrow> x \<in> set s \<and> deletedAt x = None"
  by (cases uid) (auto dest: find_SomeD)

lemma isAuthenticated_Next:
  assumes "isAuthenticated e s req = Next i"
  shows "\<exists>x \<in> set s. deletedAt x = None \<and> i = req_user x"
proof (cases "presented req")
  case None
  with assms show ?thesis by (simp add: isAuthenticated_def)
next
  case (Some token)
  show ?thesis
  proof (cases "jwt_verify token (ACCESS_TOKEN_SECRET e) (now e)")
    case (Inl err)
    with assms Some show ?thesis by (simp add: isAuthenticated_def split: if_splits)
  next
    case (Inr p)
    show ?thesis
    proof (cases p)
      case (PString str)
      with assms Some Inr show ?thesis by (simp add: isAuthenticated_def split: if_splits)
    next
      case (PObject uid tv)
      with Inr have "jwt_verify token (ACCESS_TOKEN_SECRET e) (now e) = Inr (PObject uid tv)"
        by simp
      from isAuthenticated_decoded [OF Some this, of s] assms
      obtain x where "findFirst_active uid s = Inr (Some x)" "i = req_user x"
        by (auto split: sum.splits option.splits if_splits)
      with findFirst_active_Some show ?thesis by blast
    qed
  qed
qed

section \<open>The sample table\<close>

lemma sample_wf: "wf_store [alice, bob, carol]"
  by (simp add: wf_store_def alice_def bob_def carol_def)

lemma sample_issue:
  "generateToken env0 ''u1'' [alice, bob, carol]
     = (Inr (generateAccessToken env0 ''u1'' 1, generateRefreshToken env0 ''u1'' 1),
        map (rotated env0 ''u1'' 1) [alice, bob, carol])"
proof -
  have "findUnique ''u1'' [alice, bob, carol] = Some alice" by (simp add: findUnique_def alice_def)
  moreover have "tokenVersion alice + 1 \<le> INT_MAX" by (simp add: alice_def INT_MAX_def)
  ultimately show ?thesis using generateToken_found [of "''u1''" "[alice, bob, carol]" alice env0]
    by (simp add: alice_def)
qed

section \<open>Tokens that carry no version\<close>

text \<open>
  C10. A token that verifies under the access secret and whose payload has a subject id
  but no \<open>tokenVersion\<close> field is accepted whenever the subject has a row with
  \<open>deletedAt\<close> null, whatever the row's counter is: the gate passes the subject's
  identity on. It goes on being accepted after a successful \<open>logout\<close> of the subject
  and after a rotation by \<open>generateToken\<close>, each of which raises the counter by one.
\<close>

theorem versionless_token_accepted:
  assumes "presented req = Some token"
      and "jwt_verify token (ACCESS_TOKEN_SECRET e) (now e) = Inr (PObject (JStr uid) JUndefined)"
      and "find (\<lambda>u. user_id u = uid \<and> deletedAt u = None) s = Some u"
  shows "isAuthenticated e s req = Next (req_user u)
       \<and> (logout (Some idn) s = (r, s') \<and> status r = 200 \<and> ident_id idn = uid \<longrightarrow>
            isAuthenticated e s' req = Next ((req_user u)\<lparr>ident_tokenVersion := tokenVersion u + 1\<rparr>))
       \<and> (generateToken e' uid s = (Inr pair, s'') \<longrightarrow>
            isAuthenticated e s'' req = Next ((req_user u)\<lparr>ident_tokenVersion := tokenVersion u + 1\<rparr>))"
proof (intro conjI impI)
  show "isAuthenticated e s req = Next (req_user u)"
    by (simp add: isAuthenticated_verified [OF assms(1,2)] assms(3))
next
  have uid: "user_id u = uid" using assms(3) by (auto simp: find_Some_iff)
  assume "logout (Some idn) s = (r, s') \<and> status r = 200 \<and> ident_id idn = uid"
  then have "s' = map (logged_out uid) s" using logout_200 [of idn s r s'] by auto
  then have "find (\<lambda>u. user_id u = uid \<and> deletedAt u = None) s' = Some (logged_out uid u)"
    by (simp add: find_active_map assms(3))
  then show "isAuthenticated e s' req = Next ((req_user u)\<lparr>ident_tokenVersion := tokenVersion u + 1\<rparr>)"
    by (simp add: isAuthenticated_verified [OF assms(1,2)] logged_out_def uid req_user_def)
next
  have uid: "user_id u = uid" using assms(3) by (auto simp: find_Some_iff)
  assume "generateToken e' uid s = (Inr pair, s'')"
  then obtain v where "s'' = map (rotated e' uid v) s"
    using generateToken_Inr [of e' uid s "fst pair" "snd pair" s''] by auto
  then have "find (\<lambda>u. user_id u = uid \<and> deletedAt u = None) s'' = Some (rotated e' uid v u)"
    by (simp add: find_active_map assms(3))
  then show "isAuthenticated e s'' req = Next ((req_user u)\<lparr>ident_tokenVersion := tokenVersion u + 1\<rparr>)"
    by (simp add: isAuthenticated_verified [OF assms(1,2)] rotated_def uid req_user_def)
qed

theorem versionless_token_accepted_witness:
  "isAuthenticated env0 [alice, bob] (bearer_request versionless) = Next (req_user alice)
   \<and> isAuthenticated env0 (snd (logout (Some (req_user alice)) [alice, bob])) (bearer_request versionless)
       = Next ((req_user alice)\<lparr>ident_tokenVersion := 1\<rparr>)
   \<and> isAuthenticated env0 (snd (generateToken env0 ''u1'' [alice, bob])) (bearer_request versionless)
       = Next ((req_user alice)\<lparr>ident_tokenVersion := 1\<rparr>)"
proof -
  have h1: "presented (bearer_request versionless) = Some versionless"
    by (simp add: presented_def falsy_def bearer_request_def)
  have h2: "jwt_verify versionless (ACCESS_TOKEN_SECRET env0) (now env0)
              = Inr (PObject (JStr ''u1'') JUndefined)"
    by (simp add: versionless_def env0_def)
  have h3: "find (\<lambda>u. user_id u = ''u1'' \<and> deletedAt u = None) [alice, bob] = Some alice"
    by (simp add: alice_def)
  have lo: "logout (Some (req_user alice)) [alice, bob]
              = (fst (logout (Some (req_user alice)) [alice, bob]),
                 snd (logout (Some (req_user alice)) [alice, bob]))
            \<and> status (fst (logout (Some (req_user alice)) [alice, bob])) = 200
            \<and> ident_id (req_user alice) = ''u1''"
    by (simp add: logout_def store_defs req_user_def alice_def bob_def)
  have gt: "generateToken env0 ''u1'' [alice, bob]
              = (Inr (generateAccessToken env0 ''u1'' 1, generateRefreshToken env0 ''u1'' 1),
                 snd (generateToken env0 ''u1'' [alice, bob]))"
    by (simp add: generateToken_def store_defs alice_def bob_def Let_def)
  have tv: "tokenVersion alice + 1 = 1" by (simp add: alice_def)
  show ?thesis
    using versionless_token_accepted [OF h1 h2 h3,
        of "req_user alice" "fst (logout (Some (req_user alice)) [alice, bob])"
           "snd (logout (Some (req_user alice)) [alice, bob])" env0
           "(generateAccessToken env0 ''u1'' 1, generateRefreshToken env0 ''u1'' 1)"
           "snd (generateToken env0 ''u1'' [alice, bob])"]
      lo gt tv by simp
qed

section \<open>Tokens that do not verify\<close>

lemma isAuthenticated_unverifiable:
  assumes "presented req = Some token" "token \<noteq> Str []"
      and "jwt_verify token (ACCESS_TOKEN_SECRET e) (now e) = Inl err"
  shows "isAuthenticated e s req = Respond 500 (ApiError 500 ''error in authenticated'')"
  unfolding isAuthenticated_def by (simp add: assms)

text \<open>
  C6. The specification asks for status 401 on a malformed or expired bearer token.
  \<open>isAuthenticated\<close> calls \<open>jwt.verify\<close> inside its one \<open>try\<close> block, whose \<open>catch\<close>
  answers 500 "error in authenticated": a string that is no token, and a well-signed
  token past its expiry, both get 500. \<open>refreshAccessToken\<close> wraps the same call in a
  \<open>try\<close> of its own and answers 401.
\<close>

theorem gate_answers_500_on_bad_token:
  "isAuthenticated env0 [alice, bob] (bearer_request (Str ''not.a.jwt''))
     = Respond 500 (ApiError 500 ''error in authenticated'')
   \<and> jwt_verify expired_token (ACCESS_TOKEN_SECRET env0) (now env0) = Inl TokenExpiredError
   \<and> isAuthenticated env0 [alice, bob] (bearer_request expired_token)
     = Respond 500 (ApiError 500 ''error in authenticated'')
   \<and> refreshAccessToken env0 \<lparr>cookie_refreshToken = Some (Str ''not.a.jwt''), body_refreshToken = None\<rparr> [alice, bob]
     = (fail 401 401 ''Invalid or expired refresh token'', [alice, bob])"
  by (simp add: isAuthenticated_def presented_def falsy_def bearer_request_def env0_def
        expired_token_def refreshAccessToken_def incoming_def)

section \<open>A freshly issued access token\<close>

lemma issued_token_passes_gate:
  assumes "findUnique uid s = Some u" "deletedAt u = None"
      and "generateToken e uid s = (Inr (accessTok, refreshTok), s')"
      and "presented req = Some accessTok"
      and "ACCESS_TOKEN_SECRET e' = ACCESS_TOKEN_SECRET e"
      and "now e' < now e + ACCESS_TOKEN_EXPIRY e"
  shows "isAuthenticated e' s' req =
           Next \<lparr>ident_id = uid, ident_name = name u, ident_email = email u,
                 ident_role = role u, ident_tokenVersion = tokenVersion u + 1,
                 ident_patient = patient u, ident_doctor = doctor u\<rparr>"
proof -
  have uid: "user_id u = uid" by (rule findUnique_Some_id [OF assms(1)])
  from assms(3) assms(1)
  have tok: "accessTok = generateAccessToken e uid (tokenVersion u + 1)"
    and s': "s' = map (rotated e uid (tokenVersion u + 1)) s"
    by (auto simp: generateToken_Inr)
  have ver: "jwt_verify accessTok (ACCESS_TOKEN_SECRET e') (now e')
               = Inr (PObject (JStr uid) (JNum (tokenVersion u + 1)))"
    unfolding tok by (rule access_token_verifies [OF assms(5,6)])
  have "find (\<lambda>x. user_id x = uid \<and> deletedAt x = None) s'
          = Some (rotated e uid (tokenVersion u + 1) u)"
    unfolding s' by (simp add: find_active_map findUnique_active [OF assms(1,2)])
  then show ?thesis
    by (simp add: isAuthenticated_verified [OF assms(4) ver] rotated_def uid req_user_def)
qed

text \<open>
  C3. Let the subject \<open>uid\<close> have a row with \<open>deletedAt\<close> null and a counter below
  the column's maximum. Then \<open>generateToken\<close> returns a pair for it, and, presented to
  \<open>isAuthenticated\<close> under the same access secret and before its expiry instant, the
  access token of that pair passes the gate: the identity handed on is the subject's id,
  name, email, role, patient and doctor ids, with the counter that \<open>generateToken\<close> has
  just written.
\<close>

theorem issued_access_token_authenticates:
  assumes "findUnique uid s = Some u" "deletedAt u = None" "tokenVersion u < INT_MAX"
  shows "\<exists>accessTok refreshTok s'.
           generateToken e uid s = (Inr (accessTok, refreshTok), s')
         \<and> (\<forall>req e'. presented req = Some accessTok
                \<and> ACCESS_TOKEN_SECRET e' = ACCESS_TOKEN_SECRET e
                \<and> now e' < now e + ACCESS_TOKEN_EXPIRY e \<longrightarrow>
              isAuthenticated e' s' req =
                Next \<lparr>ident_id = uid, ident_name = name u, ident_email = email u,
                      ident_role = role u, ident_tokenVersion = tokenVersion u + 1,
                      ident_patient = patient u, ident_doctor = doctor u\<rparr>)"
proof -
  let ?a = "generateAccessToken e uid (tokenVersion u + 1)"
  let ?r = "generateRefreshToken e uid (tokenVersion u + 1)"
  let ?s' = "map (rotated e uid (tokenVersion u + 1)) s"
  have "tokenVersion u + 1 \<le> INT_MAX" using assms(3) by simp
  from generateToken_found [OF assms(1) this, of e]
  have issued: "generateToken e uid s = (Inr (?a, ?r), ?s')" .
  have "isAuthenticated e' ?s' req =
          Next \<lparr>ident_id = uid, ident_name = name u, ident_email = email u,
                ident_role = role u, ident_tokenVersion = tokenVersion u + 1,
                ident_patient = patient u, ident_doctor = doctor u\<rparr>"
    if "presented req = Some ?a" "ACCESS_TOKEN_SECRET e' = ACCESS_TOKEN_SECRET e"
       "now e' < now e + ACCESS_TOKEN_EXPIRY e" for req e'
    by (rule issued_token_passes_gate [OF assms(1,2) issued that])
  with issued show ?thesis by blast
qed

theorem issued_access_token_authenticates_witness:
  "generateToken env0 ''u1'' [alice, bob, carol]
     = (Inr (generateAccessToken env0 ''u1'' 1, generateRefreshToken env0 ''u1'' 1),
        snd (generateToken env0 ''u1'' [alice, bob, carol]))
   \<and> isAuthenticated later (snd (generateToken env0 ''u1'' [alice, bob, carol]))
       (bearer_request (generateAccessToken env0 ''u1'' 1))
     = Next \<lparr>ident_id = ''u1'', ident_name = ''alice'', ident_email = ''alice@example.com'',
             ident_role = PATIENT, ident_tokenVersion = 1,
             ident_patient = Some ''p1'', ident_doctor = None\<rparr>"
proof -
  have h1: "findUnique ''u1'' [alice, bob, carol] = Some alice"
    by (simp add: findUnique_def alice_def)
  have h2: "deletedAt alice = None" by (simp add: alice_def)
  have h3: "tokenVersion alice < INT_MAX" by (simp add: alice_def INT_MAX_def)
  have gt: "generateToken env0 ''u1'' [alice, bob, carol]
     = (Inr (generateAccessToken env0 ''u1'' 1, generateRefreshToken env0 ''u1'' 1),
        snd (generateToken env0 ''u1'' [alice, bob, carol]))"
    by (simp add: generateToken_def store_defs alice_def bob_def carol_def Let_def)
  have h4: "presented (bearer_request (generateAccessToken env0 ''u1'' 1))
              = Some (generateAccessToken env0 ''u1'' 1)
            \<and> ACCESS_TOKEN_SECRET later = ACCESS_TOKEN_SECRET env0
            \<and> now later < now env0 + ACCESS_TOKEN_EXPIRY env0"
    by (simp add: presented_def falsy_def bearer_request_def later_def env0_def)
  from issued_access_token_authenticates [OF h1 h2 h3, of env0]
  obtain a r s' where
    g: "generateToken env0 ''u1'' [alice, bob, carol] = (Inr (a, r), s')"
    and p: "\<forall>req e'. presented req = Some a
                \<and> ACCESS_TOKEN_SECRET e' = ACCESS_TOKEN_SECRET env0
                \<and> now e' < now env0 + ACCESS_TOKEN_EXPIRY env0 \<longrightarrow>
              isAuthenticated e' s' req =
                Next \<lparr>ident_id = ''u1'', ident_name = name alice, ident_email = email alice,
                      ident_role = role alice, ident_tokenVersion = tokenVersion alice + 1,
                      ident_patient = patient alice, ident_doctor = doctor alice\<rparr>"
    by blast
  from g gt have a: "a = generateAccessToken env0 ''u1'' 1"
    and s': "s' = snd (generateToken env0 ''u1'' [alice, bob, carol])" by simp_all
  from p h4 have "isAuthenticated later s' (bearer_request a) =
                Next \<lparr>ident_id = ''u1'', ident_name = name alice, ident_email = email alice,
                      ident_role = role alice, ident_tokenVersion = tokenVersion alice + 1,
                      ident_patient = patient alice, ident_doctor = doctor alice\<rparr>"
    unfolding a by blast
  then show ?thesis using gt unfolding a s' by (simp add: alice_def)
qed

section \<open>The counter only grows\<close>

lemma versions_grow_refl: "versions_grow s s"
  by (induction s) (simp_all add: versions_grow_def)

lemma versions_grow_trans:
  assumes "versions_grow s s'" "versions_grow s' s''"
  shows "versions_grow s s''"
proof -
  let ?P = "\<lambda>u u'. user_id u' = user_id u \<and> tokenVersion u \<le> tokenVersion u'"
  have "list_all2 ?P s s''"
  proof (rule list_all2_trans [where ?P1.0 = ?P and ?P2.0 = ?P and bs = s'])
    show "list_all2 ?P s s'" using assms(1) by (simp only: versions_grow_def)
    show "list_all2 ?P s' s''" using assms(2) by (simp only: versions_grow_def)
    show "?P a c" if "?P a b" "?P b c" for a b c :: user
    proof
      show "user_id c = user_id a" using that by simp
      show "tokenVersion a \<le> tokenVersion c" using that by linarith
    qed
  qed
  then show ?thesis by (simp only: versions_grow_def)
qed

lemma versions_grow_map:
  assumes "\<And>r. user_id (g r) = user_id r" "\<And>r. tokenVersion r \<le> tokenVersion (g r)"
  shows "versions_grow s (map g s)"
  by (induction s) (simp_all add: versions_grow_def assms)

lemma generateToken_grows: "versions_grow s (snd (generateToken e i s))"
proof (cases "\<exists>u. findUnique i s = Some u \<and> tokenVersion u + 1 \<le> INT_MAX")
  case True
  then obtain u where "findUnique i s = Some u" "tokenVersion u + 1 \<le> INT_MAX" by auto
  from generateToken_found [OF this, of e]
  have "snd (generateToken e i s) = map (rotated e i (tokenVersion u + 1)) s" by simp
  moreover have "versions_grow s (map (rotated e i (tokenVersion u + 1)) s)"
    by (rule versions_grow_map) (simp_all add: rotated_def)
  ultimately show ?thesis by simp
next
  case False
  then have "case findUnique i s of None \<Rightarrow> True | Some u \<Rightarrow> INT_MAX < tokenVersion u + 1"
    by (auto split: option.splits)
  from generateToken_refused [OF this, of e] show ?thesis by (simp add: versions_grow_refl)
qed

lemma logout_grows: "versions_grow s (snd (logout ru s))"
proof (cases ru)
  case None
  then show ?thesis by (simp add: logout_def versions_grow_refl)
next
  case (Some idn)
  show ?thesis
  proof (cases "\<exists>u. findUnique (ident_id idn) s = Some u \<and> tokenVersion u + 1 \<le> INT_MAX")
    case True
    then obtain u where "findUnique (ident_id idn) s = Some u" "tokenVersion u + 1 \<le> INT_MAX"
      by auto
    from logout_done [OF this]
    have "snd (logout ru s) = map (logged_out (ident_id idn)) s" using Some by simp
    moreover have "versions_grow s (map (logged_out (ident_id idn)) s)"
      by (rule versions_grow_map) (simp_all add: logged_out_def)
    ultimately show ?thesis by simp
  next
    case False
    then have "case findUnique (ident_id idn) s of None \<Rightarrow> True
               | Some u \<Rightarrow> INT_MAX < tokenVersion u + 1"
      by (auto split: option.splits)
    from logout_refused [OF this] show ?thesis using Some by (simp add: versions_grow_refl)
  qed
qed

lemma snd_case_issue:
  "snd (case p of (Inl err, s') \<Rightarrow> (F err, s') | (Inr (a, r), s') \<Rightarrow> (G a r, s')) = snd p"
  by (cases p) (auto split: sum.splits)

lemma login_store: "snd (login e b s) = s \<or> (\<exists>i. snd (login e b s) = snd (generateToken e i s))"
  unfolding login_def
  by (auto simp: snd_case_issue split: jsval.splits option.splits)

lemma refresh_store:
  "snd (refreshAccessToken e req s) = s
     \<or> (\<exists>i. snd (refreshAccessToken e req s) = snd (generateToken e i s))"
  unfolding refreshAccessToken_def
  by (auto simp: snd_case_issue split: jsval.splits option.splits sum.splits payload.splits)

lemma session_step_grows: "versions_grow s (session_step s op)"
proof (cases op)
  case (Login e b)
  then show ?thesis using login_store [of e b s] generateToken_grows [of s e]
    by (auto simp: versions_grow_refl)
next
  case (IssuePair e i)
  then show ?thesis by (simp add: generateToken_grows)
next
  case (Refresh e req)
  then show ?thesis using refresh_store [of e req s] generateToken_grows [of s e]
    by (auto simp: versions_grow_refl)
next
  case (Logout ru)
  then show ?thesis by (simp add: logout_grows)
qed

text \<open>
  C7. Whatever sequence of session operations runs (\<open>login\<close>, \<open>generateToken\<close>,
  \<open>refreshAccessToken\<close>, \<open>logout\<close>, with any arguments, succeeding or failing), the
  table keeps its rows and their ids, and the \<open>tokenVersion\<close> of every row is at least
  what it was before: no operation lowers or resets a counter.
\<close>

theorem tokenVersion_never_decreases: "versions_grow s (run_session s ops)"
proof (induction ops arbitrary: s)
  case Nil
  show ?case by (simp add: run_session_def versions_grow_refl)
next
  case (Cons op ops)
  have "versions_grow s (session_step s op)" by (rule session_step_grows)
  moreover have "versions_grow (session_step s op) (run_session (session_step s op) ops)"
    by (rule Cons.IH)
  ultimately have "versions_grow s (run_session (session_step s op) ops)"
    by (rule versions_grow_trans)
  then show ?case by (simp add: run_session_def)
qed

section \<open>Access tokens after \<open>logout\<close>\<close>

text \<open>
  An access token is minted at the counter its row has just been given, and counters
  only grow: whatever the session does next, a token handed out earlier carries a
  version that is at most the row's current one.
\<close>

lemma versions_grow_findUnique:
  "versions_grow s s' \<Longrightarrow> findUnique j s = Some u \<Longrightarrow>
     \<exists>u'. findUnique j s' = Some u' \<and> tokenVersion u \<le> tokenVersion u'"
  unfolding versions_grow_def
  by (induction arbitrary: u rule: list_all2_induct) (auto simp: findUnique_def)

lemma findUnique_run_session:
  "findUnique j s = Some u \<Longrightarrow>
     \<exists>u'. findUnique j (run_session s ops) = Some u' \<and> tokenVersion u \<le> tokenVersion u'"
proof (induction ops arbitrary: s u)
  case Nil
  then show ?case by (simp add: run_session_def)
next
  case (Cons op ops)
  from versions_grow_findUnique [OF session_step_grows Cons.prems, of op]
  obtain u1 where u1: "findUnique j (session_step s op) = Some u1"
    and le1: "tokenVersion u \<le> tokenVersion u1" by auto
  from Cons.IH [OF u1]
  obtain u' where "findUnique j (run_session (session_step s op) ops) = Some u'"
    and "tokenVersion u1 \<le> tokenVersion u'" by auto
  with le1 show ?case by (auto simp: run_session_def)
qed

lemma issued_version_bounded:
  assumes "generateToken e uid s = (Inr (accessTok, refreshTok), s')"
      and "findUnique uid (run_session s' ops) = Some u"
  shows "\<exists>v. accessTok = generateAccessToken e uid v \<and> v \<le> tokenVersion u"
proof -
  from assms(1) obtain u0 where u0: "findUnique uid s = Some u0"
    and a: "accessTok = generateAccessToken e uid (tokenVersion u0 + 1)"
    and s': "s' = map (rotated e uid (tokenVersion u0 + 1)) s"
    by (auto simp: generateToken_Inr)
  have "findUnique uid s' = Some (rotated e uid (tokenVersion u0 + 1) u0)"
    unfolding s' by (simp add: findUnique_rotated u0)
  from findUnique_run_session [OF this, of ops] assms(2)
  have "tokenVersion (rotated e uid (tokenVersion u0 + 1) u0) \<le> tokenVersion u" by simp
  then have "tokenVersion u0 + 1 \<le> tokenVersion u"
    using findUnique_Some_id [OF u0] by (simp add: rotated_def)
  with a show ?thesis by blast
qed

lemma stale_token_stopped:
  assumes "wf_store s" "findUnique uid s = Some u"
      and "logout (Some idn) s = (r, s')" "status r = 200" "ident_id idn = uid"
      and "presented req = Some (generateAccessToken e0 uid v)" "v \<le> tokenVersion u"
  shows "(\<forall>i. isAuthenticated e s' req \<noteq> Next i)
       \<and> (ACCESS_TOKEN_SECRET e = ACCESS_TOKEN_SECRET e0 \<and> now e < now e0 + ACCESS_TOKEN_EXPIRY e0 \<longrightarrow>
            isAuthenticated e s' req =
              Respond 401 (ApiError 401
                (if deletedAt u = None then ''Token has been invalidated, please login again''
                 else ''Account not found or has been deactivated'')))"
proof -
  let ?t = "generateAccessToken e0 uid v"
  have uid: "user_id u = uid" by (rule findUnique_Some_id [OF assms(2)])
  have s': "s' = map (logged_out uid) s"
    using logout_200 [of idn s r s'] assms(3,4,5) by auto
  have act: "find (\<lambda>x. user_id x = uid \<and> deletedAt x = None) s'
               = (if deletedAt u = None then Some (logged_out uid u) else None)"
    unfolding s' by (simp add: find_active_map wf_find_active [OF assms(1,2)])
  have stale: "JNum v \<noteq> JNum (tokenVersion (logged_out uid u))"
    using assms(7) by (simp add: logged_out_def uid)
  have ok: "isAuthenticated e s' req =
              Respond 401 (ApiError 401
                (if deletedAt u = None then ''Token has been invalidated, please login again''
                 else ''Account not found or has been deactivated''))"
    if "jwt_verify ?t (ACCESS_TOKEN_SECRET e) (now e) = Inr p" for p
  proof -
    have "p = PObject (JStr uid) (JNum v)"
      using that by (simp add: generateAccessToken_def jwt_sign_def split: if_splits)
    with that have "jwt_verify ?t (ACCESS_TOKEN_SECRET e) (now e) = Inr (PObject (JStr uid) (JNum v))"
      by simp
    from isAuthenticated_verified [OF assms(6) this, of s'] act stale
    show ?thesis by simp
  qed
  have never: "isAuthenticated e s' req \<noteq> Next i" for i
  proof (cases "jwt_verify ?t (ACCESS_TOKEN_SECRET e) (now e)")
    case (Inl err)
    have "?t \<noteq> Str []" by (simp add: generateAccessToken_def jwt_sign_def)
    from isAuthenticated_unverifiable [OF assms(6) this Inl] show ?thesis by simp
  next
    case (Inr p)
    from ok [OF Inr] show ?thesis by simp
  qed
  have "isAuthenticated e s' req =
              Respond 401 (ApiError 401
                (if deletedAt u = None then ''Token has been invalidated, please login again''
                 else ''Account not found or has been deactivated''))"
    if "ACCESS_TOKEN_SECRET e = ACCESS_TOKEN_SECRET e0" "now e < now e0 + ACCESS_TOKEN_EXPIRY e0"
    using ok [OF access_token_verifies [OF that]] .
  with never show ?thesis by blast
qed

text \<open>
  C4. Let the subject \<open>uid\<close> have a row with a counter below the column's maximum.
  Then \<open>logout\<close> of \<open>uid\<close> answers 200, and on the table it leaves an access token minted
  for \<open>uid\<close> at any version up to the counter the row had before the logout is never let
  through by the gate. When it still verifies (same access secret, not yet expired) the
  answer is 401: "Token has been invalidated, please login again", or "Account not found
  or has been deactivated" for a subject whose row is soft-deleted.
\<close>

theorem logout_invalidates_access_tokens:
  assumes "wf_store s" "findUnique uid s = Some u" "tokenVersion u < INT_MAX"
      and "ident_id idn = uid"
      and "presented req = Some (generateAccessToken e0 uid v)" "v \<le> tokenVersion u"
  shows "\<exists>r s'. logout (Some idn) s = (r, s') \<and> status r = 200
       \<and> (\<forall>e. (\<forall>i. isAuthenticated e s' req \<noteq> Next i)
            \<and> (ACCESS_TOKEN_SECRET e = ACCESS_TOKEN_SECRET e0
                 \<and> now e < now e0 + ACCESS_TOKEN_EXPIRY e0 \<longrightarrow>
               isAuthenticated e s' req =
                 Respond 401 (ApiError 401
                   (if deletedAt u = None then ''Token has been invalidated, please login again''
                    else ''Account not found or has been deactivated''))))"
proof -
  let ?r = "\<lparr>status = 200, body = ApiResponse 200 (Message ''Logout successfully'') None,
             accessToken_cookie = ClearCookie, refreshToken_cookie = ClearCookie\<rparr>"
  let ?s' = "map (logged_out uid) s"
  have row: "findUnique (ident_id idn) s = Some u" using assms(2,4) by simp
  have "tokenVersion u + 1 \<le> INT_MAX" using assms(3) by simp
  from logout_done [OF row this]
  have out: "logout (Some idn) s = (?r, ?s')" using assms(4) by simp
  have ok: "status ?r = 200" by simp
  have "(\<forall>i. isAuthenticated e ?s' req \<noteq> Next i)
       \<and> (ACCESS_TOKEN_SECRET e = ACCESS_TOKEN_SECRET e0
            \<and> now e < now e0 + ACCESS_TOKEN_EXPIRY e0 \<longrightarrow>
          isAuthenticated e ?s' req =
            Respond 401 (ApiError 401
              (if deletedAt u = None then ''Token has been invalidated, please login again''
               else ''Account not found or has been deactivated'')))" for e
    by (rule stale_token_stopped [OF assms(1,2) out ok assms(4,5,6)])
  with out ok show ?thesis by blast
qed

theorem logout_invalidates_access_tokens_witness:
  "fst (generateToken env0 ''u1'' [alice, bob, carol])
     = Inr (generateAccessToken env0 ''u1'' 1, generateRefreshToken env0 ''u1'' 1)
   \<and> status (fst (logout (Some (req_user alice))
                 (snd (generateToken env0 ''u1'' [alice, bob, carol])))) = 200
   \<and> (\<forall>i. isAuthenticated later
            (snd (logout (Some (req_user alice))
                   (snd (generateToken env0 ''u1'' [alice, bob, carol]))))
            (bearer_request (generateAccessToken env0 ''u1'' 1)) \<noteq> Next i)
   \<and> isAuthenticated later
        (snd (logout (Some (req_user alice))
               (snd (generateToken env0 ''u1'' [alice, bob, carol]))))
        (bearer_request (generateAccessToken env0 ''u1'' 1))
       = Respond 401 (ApiError 401 ''Token has been invalidated, please login again'')"
proof -
  let ?s1 = "snd (generateToken env0 ''u1'' [alice, bob, carol])"
  let ?u1 = "rotated env0 ''u1'' 1 alice"
  let ?a = "generateAccessToken env0 ''u1'' 1"
  let ?out = "logout (Some (req_user alice)) ?s1"
  have s1: "?s1 = map (rotated env0 ''u1'' 1) [alice, bob, carol]"
    using sample_issue by simp
  have issued: "fst (generateToken env0 ''u1'' [alice, bob, carol])
                  = Inr (?a, generateRefreshToken env0 ''u1'' 1)"
    using sample_issue by simp
  have h1: "wf_store ?s1"
    unfolding s1 using sample_wf by (simp add: wf_store_def)
  have "findUnique ''u1'' [alice, bob, carol] = Some alice"
    by (simp add: findUnique_def alice_def)
  then have h2: "findUnique ''u1'' ?s1 = Some ?u1"
    unfolding s1 by (simp only: findUnique_rotated option.map)
  have h3: "tokenVersion ?u1 < INT_MAX" by (simp add: rotated_def alice_def INT_MAX_def)
  have h4: "ident_id (req_user alice) = ''u1''" by (simp add: req_user_def alice_def)
  have h5: "presented (bearer_request ?a) = Some ?a"
    by (simp add: presented_def falsy_def bearer_request_def)
  have h6: "1 \<le> tokenVersion ?u1" by (simp add: rotated_def alice_def)
  have live: "ACCESS_TOKEN_SECRET later = ACCESS_TOKEN_SECRET env0
              \<and> now later < now env0 + ACCESS_TOKEN_EXPIRY env0"
    by (simp add: later_def env0_def)
  have d: "deletedAt ?u1 = None" by (simp add: alice_def)
  from logout_invalidates_access_tokens [OF h1 h2 h3 h4 h5 h6]
  obtain r s' where out: "?out = (r, s')" and ok: "status r = 200"
    and gate: "\<forall>e. (\<forall>i. isAuthenticated e s' (bearer_request ?a) \<noteq> Next i)
            \<and> (ACCESS_TOKEN_SECRET e = ACCESS_TOKEN_SECRET env0
                 \<and> now e < now env0 + ACCESS_TOKEN_EXPIRY env0 \<longrightarrow>
               isAuthenticated e s' (bearer_request ?a) =
                 Respond 401 (ApiError 401
                   (if deletedAt ?u1 = None
                    then ''Token has been invalidated, please login again''
                    else ''Account not found or has been deactivated'')))"
    by blast
  from out have r: "fst ?out = r" and s': "snd ?out = s'" by simp_all
  from gate live d
  have "(\<forall>i. isAuthenticated later s' (bearer_request ?a) \<noteq> Next i)
        \<and> isAuthenticated later s' (bearer_request ?a)
            = Respond 401 (ApiError 401 ''Token has been invalidated, please login again'')"
    by simp
  with ok issued show ?thesis unfolding r s' by simp
qed

section \<open>Soft-deleted subjects\<close>

text \<open>
  C8. Let the row of subject \<open>uid\<close> have \<open>deletedAt\<close> set. No request passes the gate
  with the identity of \<open>uid\<close>, and every token that verifies and names \<open>uid\<close>, whatever
  version it carries (the current one included), is answered 401 "Account not found or
  has been deactivated".
\<close>

theorem soft_deleted_never_authenticates:
  assumes "wf_store s" "findUnique uid s = Some u" "deletedAt u \<noteq> None"
  shows "(\<forall>i. isAuthenticated e s req = Next i \<longrightarrow> ident_id i \<noteq> uid)
       \<and> (presented req = Some token
            \<and> jwt_verify token (ACCESS_TOKEN_SECRET e) (now e) = Inr (PObject (JStr uid) tv) \<longrightarrow>
          isAuthenticated e s req =
            Respond 401 (ApiError 401 ''Account not found or has been deactivated''))"
proof (intro conjI allI impI)
  fix i assume "isAuthenticated e s req = Next i"
  then obtain x where x: "x \<in> set s" "deletedAt x = None" "i = req_user x"
    using isAuthenticated_Next by blast
  show "ident_id i \<noteq> uid"
  proof
    assume "ident_id i = uid"
    then have "user_id x = uid" using x(3) by (simp add: req_user_def)
    from wf_findUnique_mem [OF assms(1,2) x(1) this] x(2) assms(3) show False by simp
  qed
next
  assume h: "presented req = Some token
            \<and> jwt_verify token (ACCESS_TOKEN_SECRET e) (now e) = Inr (PObject (JStr uid) tv)"
  then show "isAuthenticated e s req =
            Respond 401 (ApiError 401 ''Account not found or has been deactivated'')"
    using isAuthenticated_verified [of req token e uid tv s] wf_find_active [OF assms(1,2)] assms(3)
    by simp
qed

theorem soft_deleted_never_authenticates_witness:
  "isAuthenticated env0 [alice, bob, carol] (bearer_request bob_token) \<noteq> Next (req_user bob)
   \<and> jwt_verify bob_token (ACCESS_TOKEN_SECRET env0) (now env0)
        = Inr (PObject (JStr ''u2'') (JNum (tokenVersion bob)))
   \<and> isAuthenticated env0 [alice, bob, carol] (bearer_request bob_token)
        = Respond 401 (ApiError 401 ''Account not found or has been deactivated'')"
proof -
  have h2: "findUnique ''u2'' [alice, bob, carol] = Some bob"
    by (simp add: findUnique_def alice_def bob_def)
  have h3: "deletedAt bob \<noteq> None" by (simp add: bob_def)
  have p: "presented (bearer_request bob_token) = Some bob_token"
    by (simp add: presented_def falsy_def bearer_request_def)
  have v: "jwt_verify bob_token (ACCESS_TOKEN_SECRET env0) (now env0)
        = Inr (PObject (JStr ''u2'') (JNum (tokenVersion bob)))"
    by (simp add: bob_token_def env0_def bob_def)
  show ?thesis
    using soft_deleted_never_authenticates [OF sample_wf h2 h3,
        of env0 "bearer_request bob_token" bob_token "JNum (tokenVersion bob)"] p v
    by simp
qed

text \<open>
  \<open>softDeleteUser\<close> is what sets the marker: after it answers 200 the table is still
  keyed by id and the subject's row has \<open>deletedAt\<close> set, so the theorem above applies.
\<close>

lemma softDeleteUser_200:
  assumes "softDeleteUser valid clock uid admin s = (r, s')" "status r = 200"
  shows "\<exists>u. findUnique uid s = Some u \<and> deletedAt u = None
           \<and> s' = map (\<lambda>x. if user_id x = uid then x\<lparr>deletedAt := Some clock\<rparr> else x) s"
  using assms unfolding softDeleteUser_def
  by (auto simp: fail_def update_where_id_def split: if_splits option.splits)

lemma soft_deleted_after:
  assumes "wf_store s" "softDeleteUser valid clock uid admin s = (r, s')" "status r = 200"
  shows "wf_store s' \<and> (\<exists>u'. findUnique uid s' = Some u' \<and> deletedAt u' \<noteq> None)"
proof -
  from softDeleteUser_200 [OF assms(2,3)] obtain u where
    u: "findUnique uid s = Some u"
    and s': "s' = map (\<lambda>x. if user_id x = uid then x\<lparr>deletedAt := Some clock\<rparr> else x) s"
    by auto
  have "map user_id s' = map user_id s" unfolding s' by (induction s) simp_all
  then have "wf_store s'" using assms(1) by (simp add: wf_store_def)
  moreover have "findUnique uid s' = map_option (\<lambda>x. if user_id x = uid then x\<lparr>deletedAt := Some clock\<rparr> else x) (findUnique uid s)"
    unfolding s' by (rule findUnique_rewrite) simp
  ultimately show ?thesis using u findUnique_Some_id [OF u] by simp
qed

section \<open>A verification token is used once\<close>

lemma consume_accepts:
  assumes "findUnique uid s = Some u" "emailVerificationToken u = Some t"
      and "case tokenExpiresAt u of None \<Rightarrow> True | Some x \<Rightarrow> clock \<le> x"
  shows "consume uid t clock s =
           (Verified, map (\<lambda>r. if user_id r = uid
                                then r\<lparr>emailVerificationToken := None, tokenExpiresAt := None,
                                       isEmailVerified := True\<rparr>
                                else r) s)"
proof -
  have "\<not> (case tokenExpiresAt u of None \<Rightarrow> False | Some x \<Rightarrow> x < clock)"
    using assms(3) by (simp split: option.splits)
  then show ?thesis
    unfolding consume_def by (simp add: assms(1,2) update_where_id_found [OF assms(1)])
qed

lemma consume_cleared:
  assumes "findUnique uid s = Some u" "emailVerificationToken u = None"
  shows "consume uid t clock s = (Reject Mismatch, s)"
  unfolding consume_def by (simp add: assms)

text \<open>
  C9. Let the subject hold a pending verification token \<open>t\<close> that has not expired.
  The first \<open>consume\<close> with \<open>t\<close> succeeds, clears the stored token and sets
  \<open>isEmailVerified\<close>; on the table it leaves, every further \<open>consume\<close> with \<open>t\<close>, at
  any time, is rejected with \<open>Mismatch\<close> and changes nothing.
\<close>

theorem consume_single_use:
  assumes "findUnique uid s = Some u" "emailVerificationToken u = Some t"
      and "case tokenExpiresAt u of None \<Rightarrow> True | Some x \<Rightarrow> clock \<le> x"
  shows "\<exists>s' u'. consume uid t clock s = (Verified, s')
           \<and> findUnique uid s' = Some u' \<and> isEmailVerified u' \<and> emailVerificationToken u' = None
           \<and> (\<forall>clock'. consume uid t clock' s' = (Reject Mismatch, s'))"
proof -
  let ?g = "\<lambda>r. if user_id r = uid
                then r\<lparr>emailVerificationToken := None, tokenExpiresAt := None,
                       isEmailVerified := True\<rparr>
                else r"
  have uid: "user_id u = uid" by (rule findUnique_Some_id [OF assms(1)])
  have first: "consume uid t clock s = (Verified, map ?g s)"
    by (rule consume_accepts [OF assms])
  have "findUnique uid (map ?g s) = map_option ?g (findUnique uid s)"
    by (rule findUnique_rewrite) simp
  then have row: "findUnique uid (map ?g s) = Some (?g u)" using assms(1) by simp
  have cleared: "emailVerificationToken (?g u) = None" and verified: "isEmailVerified (?g u)"
    using uid by simp_all
  have "consume uid t clock' (map ?g s) = (Reject Mismatch, map ?g s)" for clock'
    by (rule consume_cleared [OF row cleared])
  with first row cleared verified show ?thesis by blast
qed

theorem consume_single_use_witness:
  "consume ''u3'' ''k3x9'' 86400 [alice, bob, carol]
     = (Verified, [alice, bob, carol\<lparr>emailVerificationToken := None, tokenExpiresAt := None,
                                     isEmailVerified := True\<rparr>])
   \<and> consume ''u3'' ''k3x9'' 86401
        [alice, bob, carol\<lparr>emailVerificationToken := None, tokenExpiresAt := None,
                            isEmailVerified := True\<rparr>]
     = (Reject Mismatch,
        [alice, bob, carol\<lparr>emailVerificationToken := None, tokenExpiresAt := None,
                            isEmailVerified := True\<rparr>])"
proof -
  have h1: "findUnique ''u3'' [alice, bob, carol] = Some carol"
    by (simp add: findUnique_def alice_def bob_def carol_def)
  have h2: "emailVerificationToken carol = Some ''k3x9''" by (simp add: carol_def)
  have h3: "case tokenExpiresAt carol of None \<Rightarrow> True | Some x \<Rightarrow> (86400::nat) \<le> x"
    by (simp add: carol_def)
  have first: "consume ''u3'' ''k3x9'' 86400 [alice, bob, carol]
     = (Verified, [alice, bob, carol\<lparr>emailVerificationToken := None, tokenExpiresAt := None,
                                     isEmailVerified := True\<rparr>])"
    using consume_accepts [OF h1 h2 h3] by (simp add: alice_def bob_def carol_def)
  from consume_single_use [OF h1 h2 h3] first show ?thesis by auto
qed

section \<open>A refresh token presented twice\<close>

lemma refresh_on_rotated:
  assumes "findUnique uid s = Some u" "incoming req = Some t"
      and "t = Jwt k (PObject (JStr uid) (JNum v)) iat exp"
  shows "refreshAccessToken e' req (map (rotated e uid w) s) =
           (fail 401 401
              (case jwt_verify t (REFRESH_TOKEN_SECRET e') (now e') of
                 Inl err \<Rightarrow> ''Invalid or expired refresh token''
               | Inr p \<Rightarrow> ''Refresh token has been revoked''),
            map (rotated e uid w) s)"
proof -
  have uid: "user_id u = uid" by (rule findUnique_Some_id [OF assms(1)])
  have row: "findUnique uid (map (rotated e uid w) s) = Some (rotated e uid w u)"
    by (simp add: findUnique_rotated assms(1))
  have hashed: "refreshToken (rotated e uid w u) \<noteq> Some t"
    by (simp add: rotated_def uid bcrypt_hash_def assms(3))
  have t: "t \<noteq> Str []" by (simp add: assms(3))
  show ?thesis
  proof (cases "jwt_verify t (REFRESH_TOKEN_SECRET e') (now e')")
    case (Inl err)
    then show ?thesis unfolding refreshAccessToken_def by (simp add: assms(2) t)
  next
    case (Inr p)
    then have "p = PObject (JStr uid) (JNum v)" by (simp add: assms(3) split: if_splits)
    with Inr show ?thesis
      unfolding refreshAccessToken_def by (simp add: assms(2) t row hashed)
  qed
qed

lemma refresh_200:
  assumes "refreshAccessToken e req s = (r, s')" "status r = 200"
  shows "\<exists>t uid u k iat exp.
           incoming req = Some t \<and> t = Jwt k (PObject (JStr uid) (JNum (tokenVersion u))) iat exp
           \<and> findUnique uid s = Some u \<and> refreshToken u = Some t
           \<and> s' = map (rotated e uid (tokenVersion u + 1)) s"
  using assms unfolding refreshAccessToken_def
  by (auto simp: fail_def jwt_verify_Inr generateToken_Inr findUnique_Some_id
        split: option.splits if_splits sum.splits payload.splits jsval.splits prod.splits)

text \<open>
  On a table whose column equals the presented token, a refresh that answers 200 leaves
  the digest of the new token in the row, and the same token presented again is answered
  401.
\<close>

lemma refresh_after_200_refused:
  assumes "refreshAccessToken e req s = (r, s')" "status r = 200" "incoming req = Some t"
  shows "refreshAccessToken e' req s' =
           (fail 401 401
              (case jwt_verify t (REFRESH_TOKEN_SECRET e') (now e') of
                 Inl err \<Rightarrow> ''Invalid or expired refresh token''
               | Inr p \<Rightarrow> ''Refresh token has been revoked''),
            s')"
proof -
  from refresh_200 [OF assms(1,2)] assms(3) obtain uid u k iat exp where
    t: "t = Jwt k (PObject (JStr uid) (JNum (tokenVersion u))) iat exp"
    and u: "findUnique uid s = Some u"
    and s': "s' = map (rotated e uid (tokenVersion u + 1)) s"
    by auto
  show ?thesis unfolding s' by (rule refresh_on_rotated [OF u assms(3) t])
qed

text \<open>
  The refresh token that \<open>generateToken\<close> hands out is itself refused in the same way:
  the row holds its bcrypt digest, and \<open>refreshAccessToken\<close> compares the column with
  the token as presented.
\<close>

lemma issued_refresh_token_refused:
  assumes "generateToken e uid s = (Inr (accessTok, refreshTok), s')"
      and "incoming req = Some refreshTok"
  shows "refreshAccessToken e' req s' =
           (fail 401 401
              (case jwt_verify refreshTok (REFRESH_TOKEN_SECRET e') (now e') of
                 Inl err \<Rightarrow> ''Invalid or expired refresh token''
               | Inr p \<Rightarrow> ''Refresh token has been revoked''),
            s')"
proof -
  from assms(1) obtain u where u: "findUnique uid s = Some u"
    and r: "refreshTok = generateRefreshToken e uid (tokenVersion u + 1)"
    and s': "s' = map (rotated e uid (tokenVersion u + 1)) s"
    by (auto simp: generateToken_Inr)
  have "refreshTok = Jwt (REFRESH_TOKEN_SECRET e) (PObject (JStr uid) (JNum (tokenVersion u + 1)))
          (now e) (now e + REFRESH_TOKEN_EXPIRY e)"
    by (simp add: r generateRefreshToken_def jwt_sign_def)
  from refresh_on_rotated [OF u assms(2) this] show ?thesis unfolding s' .
qed


text \<open>
  No table that the handlers write lets a refresh through: \<open>refreshAccessToken\<close>
  answers 200 only when the column is the presented signed token itself, and the session
  operations never write one.
\<close>

lemma refresh_never_200:
  assumes "list_all holds_no_token s"
  shows "status (fst (refreshAccessToken e req s)) \<noteq> 200"
proof
  assume ok: "status (fst (refreshAccessToken e req s)) = 200"
  have "refreshAccessToken e req s
          = (fst (refreshAccessToken e req s), snd (refreshAccessToken e req s))" by simp
  from refresh_200 [OF this ok] obtain uid u k p iat exp where
    u: "findUnique uid s = Some u" and col: "refreshToken u = Some (Jwt k p iat exp)"
    by auto
  from u have "u \<in> set s" by (auto simp: findUnique_def dest: find_SomeD)
  with assms have "holds_no_token u" by (simp add: list_all_iff)
  with col show False by (simp add: holds_no_token_def)
qed

lemma holds_no_token_map:
  assumes "list_all holds_no_token s" "\<And>r. holds_no_token r \<Longrightarrow> holds_no_token (g r)"
  shows "list_all holds_no_token (map g s)"
  using assms by (induction s) simp_all

lemma generateToken_keeps: 
  assumes "list_all holds_no_token s"
  shows "list_all holds_no_token (snd (generateToken e i s))"
proof (cases "\<exists>u. findUnique i s = Some u \<and> tokenVersion u + 1 \<le> INT_MAX")
  case True
  then obtain u where "findUnique i s = Some u" "tokenVersion u + 1 \<le> INT_MAX" by auto
  from generateToken_found [OF this, of e]
  have "snd (generateToken e i s) = map (rotated e i (tokenVersion u + 1)) s" by simp
  moreover have "list_all holds_no_token (map (rotated e i (tokenVersion u + 1)) s)"
    by (rule holds_no_token_map [OF assms])
       (simp add: rotated_def holds_no_token_def bcrypt_hash_def)
  ultimately show ?thesis by simp
next
  case False
  then have "case findUnique i s of None \<Rightarrow> True | Some u \<Rightarrow> INT_MAX < tokenVersion u + 1"
    by (auto split: option.splits)
  from generateToken_refused [OF this, of e] assms show ?thesis by simp
qed

lemma logout_keeps:
  assumes "list_all holds_no_token s"
  shows "list_all holds_no_token (snd (logout ru s))"
proof (cases ru)
  case None
  with assms show ?thesis by (simp add: logout_def)
next
  case (Some idn)
  show ?thesis
  proof (cases "\<exists>u. findUnique (ident_id idn) s = Some u \<and> tokenVersion u + 1 \<le> INT_MAX")
    case True
    then obtain u where "findUnique (ident_id idn) s = Some u" "tokenVersion u + 1 \<le> INT_MAX"
      by auto
    from logout_done [OF this]
    have "snd (logout ru s) = map (logged_out (ident_id idn)) s" using Some by simp
    moreover have "list_all holds_no_token (map (logged_out (ident_id idn)) s)"
      by (rule holds_no_token_map [OF assms]) (simp add: logged_out_def holds_no_token_def)
    ultimately show ?thesis by simp
  next
    case False
    then have "case findUnique (ident_id idn) s of None \<Rightarrow> True
               | Some u \<Rightarrow> INT_MAX < tokenVersion u + 1"
      by (auto split: option.splits)
    from logout_refused [OF this] assms show ?thesis using Some by simp
  qed
qed

lemma session_step_keeps:
  assumes "list_all holds_no_token s"
  shows "list_all holds_no_token (session_step s op)"
proof (cases op)
  case (Login e b)
  then show ?thesis using login_store [of e b s] generateToken_keeps [OF assms, of e] assms
    by auto
next
  case (IssuePair e i)
  then show ?thesis by (simp add: generateToken_keeps [OF assms])
next
  case (Refresh e req)
  then show ?thesis using refresh_store [of e req s] generateToken_keeps [OF assms, of e] assms
    by auto
next
  case (Logout ru)
  then show ?thesis by (simp add: logout_keeps [OF assms])
qed

lemma run_session_keeps:
  "list_all holds_no_token s \<Longrightarrow> list_all holds_no_token (run_session s ops)"
proof (induction ops arbitrary: s)
  case Nil
  then show ?case by (simp add: run_session_def)
next
  case (Cons op ops)
  from Cons.IH [OF session_step_keeps [OF Cons.prems, of op]]
  show ?case by (simp add: run_session_def)
qed

lemma refresh_never_succeeds:
  assumes "list_all holds_no_token s"
  shows "status (fst (refreshAccessToken e req (run_session s ops))) \<noteq> 200"
  by (rule refresh_never_200 [OF run_session_keeps [OF assms]])

section \<open>Logging in\<close>

lemma blank_samples:
  "\<not> is_blank ''Secret#1''" "\<not> is_blank ''Alice@Example.com''"
  "\<not> is_blank ''Pass#3''" "\<not> is_blank ''carol''"
  by (simp_all add: is_blank_def)

lemma lower_samples:
  "lower ''Alice@Example.com'' = ''alice@example.com''"
  "lower ''alice@example.com'' = ''alice@example.com''"
  "lower ''bob@example.com'' = ''bob@example.com''"
  "lower ''carol@example.com'' = ''carol@example.com''"
  "lower ''alice'' = ''alice''" "lower ''bob'' = ''bob''" "lower ''carol'' = ''carol''"
  by code_simp+

lemma sample_login_lookup:
  "find (\<lambda>u. lower (email u) = lower ''Alice@Example.com'' \<or> lower (name u) = lower ''Alice@Example.com'')
     [alice, bob, carol] = Some alice"
  "find (\<lambda>u. lower (email u) = lower ''carol'' \<or> lower (name u) = lower ''carol'')
     [alice, bob, carol] = Some carol"
  by (simp_all add: alice_def bob_def carol_def lower_samples)

lemma sample_issue_carol:
  "generateToken env0 ''u3'' [alice, bob, carol]
     = (Inr (generateAccessToken env0 ''u3'' 1, generateRefreshToken env0 ''u3'' 1),
        map (rotated env0 ''u3'' 1) [alice, bob, carol])"
proof -
  have "findUnique ''u3'' [alice, bob, carol] = Some carol"
    by (simp add: findUnique_def alice_def bob_def carol_def)
  moreover have "tokenVersion carol + 1 \<le> INT_MAX" by (simp add: carol_def INT_MAX_def)
  ultimately show ?thesis using generateToken_found [of "''u3''" "[alice, bob, carol]" carol env0]
    by (simp add: carol_def)
qed

lemma login_found:
  assumes "\<not> is_blank pw" "\<not> is_blank d"
      and "find (\<lambda>u. lower (email u) = lower d \<or> lower (name u) = lower d) s = Some u"
      and "deletedAt u = None" "bcrypt_compare (Str pw) (password u)"
      and "generateToken e (user_id u) s = (Inr (accessTok, refreshTok), s')"
  shows "login e \<lparr>req_data = JStr d, req_password = JStr pw\<rparr> s
           = (\<lparr>status = 200,
               body = ApiResponse 200
                        (LoginData (user_id u) (name u) (email u) (role u) (profilePicture u)
                           accessTok)
                        (Some ''Login successfully''),
               accessToken_cookie = SetCookie accessTok,
               refreshToken_cookie = SetCookie refreshTok\<rparr>, s')"
proof -
  have "d \<noteq> []" using assms(2) by (auto simp: is_blank_def)
  then show ?thesis unfolding login_def by (simp add: assms)
qed

text \<open>
  C1. The specification asks that the refresh token returned by a successful login be accepted
  by \<open>refreshAccessToken\<close>. \<open>generateToken\<close> stores \<open>bcrypt.hash(refreshToken, 10)\<close> in
  the row, and \<open>refreshAccessToken\<close> tests \<open>user.refreshToken !== incomingRefreshToken\<close>,
  the digest against the token itself: alice logs in, gets 200 and a pair, presents the
  refresh token while it still verifies, and is answered 401 "Refresh token has been
  revoked". Lemma \<open>issued_refresh_token_refused\<close> shows the same for every subject.
\<close>

theorem refresh_after_login_is_revoked:
  "login env0 alice_login [alice, bob, carol]
     = (\<lparr>status = 200,
         body = ApiResponse 200
                  (LoginData ''u1'' ''alice'' ''alice@example.com'' PATIENT None
                     (generateAccessToken env0 ''u1'' 1))
                  (Some ''Login successfully''),
         accessToken_cookie = SetCookie (generateAccessToken env0 ''u1'' 1),
         refreshToken_cookie = SetCookie (generateRefreshToken env0 ''u1'' 1)\<rparr>,
        map (rotated env0 ''u1'' 1) [alice, bob, carol])
   \<and> jwt_verify (generateRefreshToken env0 ''u1'' 1) (REFRESH_TOKEN_SECRET later) (now later)
       = Inr (PObject (JStr ''u1'') (JNum 1))
   \<and> refreshAccessToken later (cookie_refresh (generateRefreshToken env0 ''u1'' 1))
         (map (rotated env0 ''u1'' 1) [alice, bob, carol])
       = (fail 401 401 ''Refresh token has been revoked'',
          map (rotated env0 ''u1'' 1) [alice, bob, carol])"
proof (intro conjI)
  have cols: "deletedAt alice = None" "bcrypt_compare (Str ''Secret#1'') (password alice)"
    "user_id alice = ''u1''" "name alice = ''alice''" "email alice = ''alice@example.com''"
    "role alice = PATIENT" "profilePicture alice = None"
    by (simp_all add: alice_def)
  have gen: "generateToken env0 (user_id alice) [alice, bob, carol]
     = (Inr (generateAccessToken env0 ''u1'' 1, generateRefreshToken env0 ''u1'' 1),
        map (rotated env0 ''u1'' 1) [alice, bob, carol])"
    using sample_issue by (simp add: cols)
  from login_found [OF blank_samples(1,2) sample_login_lookup(1) cols(1,2) gen, of ]
  show "login env0 alice_login [alice, bob, carol]
     = (\<lparr>status = 200,
         body = ApiResponse 200
                  (LoginData ''u1'' ''alice'' ''alice@example.com'' PATIENT None
                     (generateAccessToken env0 ''u1'' 1))
                  (Some ''Login successfully''),
         accessToken_cookie = SetCookie (generateAccessToken env0 ''u1'' 1),
         refreshToken_cookie = SetCookie (generateRefreshToken env0 ''u1'' 1)\<rparr>,
        map (rotated env0 ''u1'' 1) [alice, bob, carol])"
    by (simp add: alice_login_def cols)
next
  show live: "jwt_verify (generateRefreshToken env0 ''u1'' 1) (REFRESH_TOKEN_SECRET later) (now later)
       = Inr (PObject (JStr ''u1'') (JNum 1))"
    by (simp add: generateRefreshToken_def jwt_sign_def later_def env0_def)
  have inc: "incoming (cookie_refresh (generateRefreshToken env0 ''u1'' 1))
               = Some (generateRefreshToken env0 ''u1'' 1)"
    by (simp add: incoming_def falsy_def cookie_refresh_def generateRefreshToken_def jwt_sign_def)
  from issued_refresh_token_refused [OF sample_issue inc, of later] live
  show "refreshAccessToken later (cookie_refresh (generateRefreshToken env0 ''u1'' 1))
         (map (rotated env0 ''u1'' 1) [alice, bob, carol])
       = (fail 401 401 ''Refresh token has been revoked'',
          map (rotated env0 ''u1'' 1) [alice, bob, carol])"
    by simp
qed

text \<open>
  C2. The specification asks for a 403 and no tokens when \<open>isEmailVerified\<close> is false. \<open>login\<close>
  never reads the field (lemma \<open>login_found\<close> has no condition on it): carol, whose
  email is not verified, logs in with her password and gets 200 with both cookies set.
\<close>

theorem unverified_login_issues_tokens:
  "isEmailVerified carol = False
   \<and> login env0 carol_login [alice, bob, carol]
     = (\<lparr>status = 200,
         body = ApiResponse 200
                  (LoginData ''u3'' ''carol'' ''carol@example.com'' PATIENT None
                     (generateAccessToken env0 ''u3'' 1))
                  (Some ''Login successfully''),
         accessToken_cookie = SetCookie (generateAccessToken env0 ''u3'' 1),
         refreshToken_cookie = SetCookie (generateRefreshToken env0 ''u3'' 1)\<rparr>,
        map (rotated env0 ''u3'' 1) [alice, bob, carol])"
proof -
  have cols: "deletedAt carol = None" "bcrypt_compare (Str ''Pass#3'') (password carol)"
    "user_id carol = ''u3''" "name carol = ''carol''" "email carol = ''carol@example.com''"
    "role carol = PATIENT" "profilePicture carol = None" "isEmailVerified carol = False"
    by (simp_all add: carol_def)
  have gen: "generateToken env0 (user_id carol) [alice, bob, carol]
     = (Inr (generateAccessToken env0 ''u3'' 1, generateRefreshToken env0 ''u3'' 1),
        map (rotated env0 ''u3'' 1) [alice, bob, carol])"
    using sample_issue_carol by (simp add: cols)
  from login_found [OF blank_samples(3,4) sample_login_lookup(2) cols(1,2) gen]
  show ?thesis by (simp add: carol_login_def cols)
qed

section \<open>The rotation scenario\<close>



end
